theory Spec2Isabelle
  imports Main "HOL-Library.Sublist" "HOL-Library.Multiset"
begin

section \<open>The module manager of \<open>src/electron/manager.ts\<close>\<close>

text \<open>
  The manager discovers executables whose file name looks like a module
  (\<open>/aw-(server|watcher)/\<close>), keeps them in a list and starts, stops and toggles them as
  child processes. JavaScript exceptions are values of \<open>js_error\<close>, console output is
  returned as a list of lines, and everything the code asks of Node (the file system, the
  outcome of \<open>spawn\<close>, the order in which concurrent callbacks complete) is a parameter.
\<close>

subsection \<open>Values of the runtime\<close>

datatype js_error = TypeError string

datatype console = ConsoleLog string | ConsoleWarn string | ConsoleError string

text \<open>A path is the list of its components: \<open>path.join(dir, file)\<close> appends one.\<close>

type_synonym path = "string list"

definition path_join :: "path \<Rightarrow> string \<Rightarrow> path" where
  "path_join dir file = dir @ [file]"

definition path_string :: "path \<Rightarrow> string" where
  "path_string p = concat (map (\<lambda>c. ''/'' @ c) p)"

fun show_nat :: "nat \<Rightarrow> string" where
  "show_nat n = (if n < 10 then [''0123456789'' ! n]
                 else show_nat (n div 10) @ [''0123456789'' ! (n mod 10)])"

declare show_nat.simps [simp del]

definition show_int :: "int \<Rightarrow> string" where
  "show_int i = (if i < 0 then ''-'' @ show_nat (nat (- i)) else show_nat (nat i))"

text \<open>\<open>Array.prototype.join\<close>; \<open>toString\<close> on an array of strings joins by commas.\<close>

fun join :: "string \<Rightarrow> string list \<Rightarrow> string" where
  "join sep [] = []"
| "join sep [x] = x"
| "join sep (x # y # ys) = x @ sep @ join sep (y # ys)"

definition join_comma :: "string list \<Rightarrow> string" where
  "join_comma xs = join '','' xs"

text \<open>\<open>String.prototype.includes\<close>.\<close>

fun str_includes :: "string \<Rightarrow> string \<Rightarrow> bool" where
  "str_includes [] sub = (sub = [])"
| "str_includes (c # cs) sub = (prefix sub (c # cs) \<or> str_includes cs sub)"

subsection \<open>Child processes\<close>

text \<open>
  What Node's \<open>ChildProcess\<close> object shows of the operating system's process: whether
  the process has been reported as exited, and how. \<open>signalCode\<close> is the signal that
  terminated the process and \<open>null\<close> otherwise; \<open>exitCode\<close> is the exit code of a
  process that ended by itself and \<open>null\<close> otherwise. Both are \<open>null\<close> on a live process.
\<close>

datatype exit_status = ExitCode int | ExitSignal string

record ChildProcess =
  pid :: nat
  killed :: bool
  exited :: "exit_status option"

definition signalCode :: "ChildProcess \<Rightarrow> string option" where
  "signalCode p = (case exited p of Some (ExitSignal s) \<Rightarrow> Some s | _ \<Rightarrow> None)"

definition exitCode :: "ChildProcess \<Rightarrow> int option" where
  "exitCode p = (case exited p of Some (ExitCode c) \<Rightarrow> Some c | _ \<Rightarrow> None)"

text \<open>
  \<open>subprocess.kill()\<close> sends SIGTERM to a process that has not been reported as exited
  and records that a signal was sent; it changes neither \<open>signalCode\<close> nor \<open>exitCode\<close>,
  which only the exit notification sets. On an exited process it does nothing.
\<close>

definition kill :: "ChildProcess \<Rightarrow> ChildProcess" where
  "kill p = (if exited p = None then p\<lparr>killed := True\<rparr> else p)"

text \<open>
  The outcome of \<open>spawn(path, args)\<close>. Node throws some failures synchronously; the
  others (ENOENT, EACCES among them) it reports later through the \<open>'error'\<close> event of the
  \<open>ChildProcess\<close> object that \<open>spawn\<close> has returned by then.
\<close>

datatype spawn_result =
    SpawnThrows string
  | Spawned nat
  | SpawnedErrorLater nat string

type_synonym spawner = "path \<Rightarrow> string list \<Rightarrow> spawn_result"

definition new_child :: "nat \<Rightarrow> ChildProcess" where
  "new_child i = \<lparr>pid = i, killed = False, exited = None\<rparr>"

subsection \<open>class Module\<close>

datatype ModuleType = system | bundled

record Module =
  name :: string
  path :: path
  process :: "ChildProcess option"
  type :: ModuleType

text \<open>The constructor assigns \<open>name\<close>, \<open>path\<close> and \<open>type\<close>; \<open>process\<close> stays undefined.\<close>

definition Module_new :: "string \<Rightarrow> path \<Rightarrow> ModuleType \<Rightarrow> Module" where
  "Module_new n p t = \<lparr>name = n, path = p, process = None, type = t\<rparr>"

text \<open>\<open>running()\<close> reads \<open>this.process.signalCode\<close>: a TypeError when \<open>process\<close> is undefined.\<close>

definition undefined_signalCode :: js_error where
  "undefined_signalCode = TypeError ''Cannot read properties of undefined (reading signalCode)''"

definition Module_running :: "Module \<Rightarrow> js_error + bool" where
  "Module_running m =
     (case process m of
        None \<Rightarrow> Inl undefined_signalCode
      | Some p \<Rightarrow> if signalCode p = None then Inr True else Inr False)"

text \<open>
  \<open>start()\<close>: everything is inside \<open>try\<close>, so it never throws. The handle is assigned
  when \<open>spawn\<close> returns one; the listeners registered are for \<open>'close'\<close> and for the data of
  the two output streams.
\<close>

definition Module_start :: "bool \<Rightarrow> spawner \<Rightarrow> Module \<Rightarrow> Module \<times> console list" where
  "Module_start TESTING spawn m =
     (let out = [ConsoleLog (''Starting '' @ name m @ (if TESTING then '' (in testing mode)'' else ''''))];
          args = (if TESTING then [''--testing''] else [])
      in case spawn (path m) args of
           SpawnThrows err \<Rightarrow> (m, out @ [ConsoleError (''ERROR '' @ name m @ '': '' @ err)])
         | Spawned i \<Rightarrow> (m\<lparr>process := Some (new_child i)\<rparr>, out)
         | SpawnedErrorLater i err \<Rightarrow> (m\<lparr>process := Some (new_child i)\<rparr>, out))"

definition Module_stop :: "Module \<Rightarrow> js_error + Module \<times> console list" where
  "Module_stop m =
     (case Module_running m of
        Inl e \<Rightarrow> Inl e
      | Inr r \<Rightarrow>
          if r then Inr (m\<lparr>process := map_option kill (process m)\<rparr>, [])
          else Inr (m, [ConsoleWarn ''Module wasn't running, cannot stop.'']))"

definition Module_toggle :: "bool \<Rightarrow> spawner \<Rightarrow> Module \<Rightarrow> js_error + Module \<times> console list" where
  "Module_toggle TESTING spawn m =
     (case Module_running m of
        Inl e \<Rightarrow> Inl e
      | Inr r \<Rightarrow> if r then Module_stop m else Inr (Module_start TESTING spawn m))"

text \<open>
  The exit notification of the operating system for the module's current process: Node
  sets \<open>exitCode\<close> or \<open>signalCode\<close>, and the \<open>'close'\<close> listener of \<open>start()\<close> prints
  the code (\<open>null\<close> for a process terminated by a signal). Nothing else is done.
\<close>

definition show_code :: "exit_status \<Rightarrow> string" where
  "show_code st = (case st of ExitCode c \<Rightarrow> show_int c | ExitSignal s \<Rightarrow> ''null'')"

definition Module_on_close :: "exit_status \<Rightarrow> Module \<Rightarrow> Module \<times> console list" where
  "Module_on_close st m =
     (case process m of
        None \<Rightarrow> (m, [])
      | Some p \<Rightarrow>
          if exited p = None
          then (m\<lparr>process := Some (p\<lparr>exited := Some st\<rparr>)\<rparr>,
                [ConsoleLog (''Module '' @ name m @ '' exited with code '' @ show_code st)])
          else (m, []))"

text \<open>
  A history of one Module: calls of its methods, each \<open>start\<close> with the outcome of its
  \<open>spawn\<close>, and exit notifications. It stops at the first call that throws.
\<close>

datatype action = Start spawn_result | Stop | Toggle spawn_result | Exit exit_status

fun step :: "bool \<Rightarrow> action \<Rightarrow> Module \<Rightarrow> js_error + Module \<times> console list" where
  "step TESTING (Start r) m = Inr (Module_start TESTING (\<lambda>_ _. r) m)"
| "step TESTING Stop m = Module_stop m"
| "step TESTING (Toggle r) m = Module_toggle TESTING (\<lambda>_ _. r) m"
| "step TESTING (Exit st) m = Inr (Module_on_close st m)"

fun run :: "bool \<Rightarrow> action list \<Rightarrow> Module \<Rightarrow> js_error + Module \<times> console list" where
  "run TESTING [] m = Inr (m, [])"
| "run TESTING (a # as) m =
     (case step TESTING a m of
        Inl e \<Rightarrow> Inl e
      | Inr (m', out) \<Rightarrow>
          (case run TESTING as m' of
             Inl e \<Rightarrow> Inl e
           | Inr (m'', out') \<Rightarrow> Inr (m'', out @ out')))"

text \<open>
  The calls of a history that assign \<open>this.process\<close> on a Module that has none: a
  \<open>start()\<close> whose \<open>spawn\<close> returns a process object. (\<open>toggle()\<close> reaches
  \<open>start()\<close> only on a Module that has a process already.)
\<close>

definition returns_handle :: "spawn_result \<Rightarrow> bool" where
  "returns_handle r = (case r of SpawnThrows _ \<Rightarrow> False | _ \<Rightarrow> True)"

definition attaches :: "action \<Rightarrow> bool" where
  "attaches a = (case a of Start r \<Rightarrow> returns_handle r | _ \<Rightarrow> False)"

subsection \<open>The file system\<close>

text \<open>
  What \<open>fs.readdir\<close>, \<open>fs.stat\<close> and \<open>fs.access\<close> see: a tree. A regular file carries
  whether the process may execute it; \<open>Locked\<close> is a directory that cannot be listed,
  \<open>Special\<close> is neither a regular file nor a directory, and \<open>Broken e\<close> is an entry on
  which \<open>stat\<close> fails with code \<open>e\<close> (a dangling link, with ENOENT).
\<close>

datatype errcode = ENOENT | ENOTDIR | EACCES

datatype node =
    File bool
  | Dir "(string \<times> node) list"
  | Locked
  | Special
  | Broken errcode

datatype stat_kind = IsFile | IsDirectory | IsOther

fun stat :: "node \<Rightarrow> errcode + stat_kind" where
  "stat (File x) = Inr IsFile"
| "stat (Dir es) = Inr IsDirectory"
| "stat Locked = Inr IsDirectory"
| "stat Special = Inr IsOther"
| "stat (Broken e) = Inl e"

fun access_X_OK :: "node \<Rightarrow> bool" where
  "access_X_OK (File x) = x"
| "access_X_OK n = False"

fun resolve :: "node \<Rightarrow> path \<Rightarrow> errcode + node" where
  "resolve (Broken e) cs = Inl e"
| "resolve n [] = Inr n"
| "resolve (Dir es) (c # cs) =
     (case map_of es c of None \<Rightarrow> Inl ENOENT | Some n \<Rightarrow> resolve n cs)"
| "resolve Locked (c # cs) = Inl EACCES"
| "resolve n (c # cs) = Inl ENOTDIR"

definition show_errcode :: "errcode \<Rightarrow> string" where
  "show_errcode e = (case e of ENOENT \<Rightarrow> ''ENOENT'' | ENOTDIR \<Rightarrow> ''ENOTDIR'' | EACCES \<Rightarrow> ''EACCES'')"

subsection \<open>Discovery\<close>

text \<open>The filter of \<open>discoverModules\<close>: \<open>file.match(/aw-(server|watcher)/)\<close>, unanchored.\<close>

definition file_match :: "string \<Rightarrow> bool" where
  "file_match file = (str_includes file ''aw-server'' \<or> str_includes file ''aw-watcher'')"

text \<open>
  The \<open>catch\<close> block of \<open>discoverModules\<close>: ENOENT returns a fresh empty array, any other
  error is printed and the array filled so far is returned.
\<close>

definition catch_block :: "errcode \<Rightarrow> Module list \<Rightarrow> console list \<Rightarrow> Module list \<times> console list" where
  "catch_block e ms out =
     (if e = ENOENT then ([], out)
      else (ms, out @ [ConsoleError (''Could not list the directory due to unexpected error: '' @ show_errcode e)]))"

text \<open>
  The callbacks of one directory run concurrently and each pushes at its end, so the
  array holds their contributions in the order in which they complete. That order is the
  parameter \<open>order\<close>: given the directory and its matching file names, the names in
  completion order. The first callback whose \<open>stat\<close> fails rejects the
  \<open>Promise.all\<close>; the \<open>catch\<close> block then runs with the array as it is. \<open>scan\<close>
  is the result at the moment the function returns; what the callbacks that are still
  pending then add to the returned array is \<open>scan_pending\<close> below.
\<close>

type_synonym file_order = "path \<Rightarrow> string list \<Rightarrow> string list"

lemma size_child:
  "(f, c) \<in> set es \<Longrightarrow> size c < Suc (size_list (size_prod (\<lambda>_. 0) size) es)"
  by (induction es) auto

function (sequential) scan :: "file_order \<Rightarrow> path \<Rightarrow> node \<Rightarrow> ModuleType \<Rightarrow> Module list \<times> console list" where
  "scan order dir (Dir es) t =
     (let files = filter file_match (map fst es);
          r = fold (\<lambda>file (rejected, ms, out).
                if rejected \<noteq> None then (rejected, ms, out)
                else (case map_of es file of
                    None \<Rightarrow> (Some ENOENT, ms, out)
                  | Some child \<Rightarrow>
                      (case stat child of
                         Inl e \<Rightarrow> (Some e, ms, out)
                       | Inr IsFile \<Rightarrow>
                           if access_X_OK child
                           then (None, ms @ [Module_new file (path_join dir file) t],
                                 out @ [ConsoleLog (''Found module '' @ file)])
                           else (None, ms, out)
                       | Inr IsDirectory \<Rightarrow>
                           (case scan order (path_join dir file) child t of
                              (ms', out') \<Rightarrow> (None, ms @ ms', out @ out'))
                       | Inr IsOther \<Rightarrow>
                           (None, ms, out @ [ConsoleWarn ''Not a file, and not a dir?'']))))
              (order dir files) (None, [], [])
      in case r of
           (None, ms, out) \<Rightarrow> (ms, out)
         | (Some e, ms, out) \<Rightarrow> catch_block e ms out)"
| "scan order dir Locked t = catch_block EACCES [] []"
| "scan order dir (Broken e) t = catch_block e [] []"
| "scan order dir n t = catch_block ENOTDIR [] []"
  by pat_completeness auto
termination
  by (relation "measure (\<lambda>(order, dir, n, t). size n)")
     (auto dest!: map_of_SomeD size_child)

text \<open>\<open>discoverModules(dir, type)\<close>: \<open>readdir\<close> of a path that does not resolve fails at once.\<close>

definition discoverModules :: "node \<Rightarrow> file_order \<Rightarrow> path \<Rightarrow> ModuleType \<Rightarrow> Module list \<times> console list" where
  "discoverModules root order dir t =
     (case resolve root dir of
        Inl e \<Rightarrow> catch_block e [] []
      | Inr n \<Rightarrow> scan order dir n t)"

text \<open>
  When the \<open>catch\<close> block returns the array on an error other than ENOENT, callbacks of
  the directory can still be pending. They run on, and what they push reaches the very
  array that was returned. \<open>scan_pending\<close> lists, in completion order, what each of
  them pushes onto that array and prints on its way: the module of an executable file, or
  the result of the scan of a subdirectory. A pending callback whose own \<open>stat\<close> fails
  rejects a promise nobody waits for any more. After ENOENT a fresh array is returned, and
  after a fulfilled \<open>Promise.all\<close> no callback is pending: nothing reaches the returned
  array then. (What a callback prints after its push has lost its target is not recorded.)
\<close>

fun scan_pending :: "file_order \<Rightarrow> path \<Rightarrow> node \<Rightarrow> ModuleType \<Rightarrow> (Module list \<times> console list) list" where
  "scan_pending order dir (Dir es) t =
     (let files = filter file_match (map fst es);
          r = fold (\<lambda>file (rejected, late).
                if rejected = None
                then (case map_of es file of
                    None \<Rightarrow> (Some ENOENT, late)
                  | Some child \<Rightarrow>
                      (case stat child of
                         Inl e \<Rightarrow> (Some e, late)
                       | Inr k \<Rightarrow> (None, late)))
                else (case map_of es file of
                    None \<Rightarrow> (rejected, late)
                  | Some child \<Rightarrow>
                      (case stat child of
                         Inl e \<Rightarrow> (rejected, late)
                       | Inr IsFile \<Rightarrow>
                           if access_X_OK child
                           then (rejected,
                                 late @ [([Module_new file (path_join dir file) t],
                                          [ConsoleLog (''Found module '' @ file)])])
                           else (rejected, late)
                       | Inr IsDirectory \<Rightarrow>
                           (rejected, late @ [scan order (path_join dir file) child t])
                       | Inr IsOther \<Rightarrow>
                           (rejected, late @ [([], [ConsoleWarn ''Not a file, and not a dir?''])]))))
              (order dir files) (None, [])
      in case r of
           (None, late) \<Rightarrow> []
         | (Some e, late) \<Rightarrow> if e = ENOENT then [] else late)"
| "scan_pending order dir n t = []"

definition discoverModules_pending ::
    "node \<Rightarrow> file_order \<Rightarrow> path \<Rightarrow> ModuleType \<Rightarrow> (Module list \<times> console list) list" where
  "discoverModules_pending root order dir t =
     (case resolve root dir of
        Inl e \<Rightarrow> []
      | Inr n \<Rightarrow> scan_pending order dir n t)"

text \<open>
  Lines that land while other output is being printed: the \<open>k\<close>-th number says how many
  further lines of the other output come before the \<open>k\<close>-th block that lands.
\<close>

fun weave :: "nat list \<Rightarrow> console list list \<Rightarrow> console list \<Rightarrow> console list" where
  "weave (k # ks) (l # ls) out = take k out @ l @ weave ks ls (drop k out)"
| "weave ks ls out = out"

definition found_line :: "Module list \<Rightarrow> string \<Rightarrow> console" where
  "found_line ms place =
     ConsoleLog (''Found '' @ show_nat (length ms) @ '' modules in '' @ place @ '': ''
                 @ join_comma (map name ms))"

text \<open>\<open>path.join(__static, '../modules')\<close>: the sibling \<open>modules\<close> of \<open>__static\<close>.\<close>

definition discoverBundledModules :: "node \<Rightarrow> file_order \<Rightarrow> path \<Rightarrow> Module list \<times> console list" where
  "discoverBundledModules root order static =
     (let bundlepath = path_join (butlast static) ''modules'';
          (ms, out) = discoverModules root order bundlepath bundled
      in (ms, out @ [found_line ms ''bundle'']))"

text \<open>
  \<open>discoverBundledModules\<close> hands on the array it got, so the callbacks still pending in
  the scan of the bundle directory push onto what \<open>init\<close> holds as \<open>modulesBundled\<close>.
\<close>

definition discoverBundledModules_pending ::
    "node \<Rightarrow> file_order \<Rightarrow> path \<Rightarrow> (Module list \<times> console list) list" where
  "discoverBundledModules_pending root order static =
     discoverModules_pending root order (path_join (butlast static) ''modules'') bundled"

text \<open>
  The body of \<open>forEach\<close> in \<open>discoverSystemModules\<close>: a module is pushed unless one of
  the same name is in the array already.
\<close>

definition push_unless_named :: "Module \<Rightarrow> Module list \<Rightarrow> Module list" where
  "push_unless_named m ms = (if name m \<in> set (map name ms) then ms else ms @ [m])"

text \<open>
  \<open>discoverSystemModules\<close>: one scan per entry of PATH, all started together; each
  merges what it found into the shared array when its own scan is done. The parameter
  \<open>dir_order\<close> gives the entries of PATH in the order in which their scans complete.
  \<open>process.env.PATH\<close> may be undefined, and \<open>split\<close> on it then throws.
\<close>

type_synonym dir_order = "path list \<Rightarrow> path list"

definition undefined_split :: js_error where
  "undefined_split = TypeError ''Cannot read properties of undefined (reading split)''"

text \<open>\<open>console.log\<close> of an array of strings, as \<open>util.inspect\<close> prints a short one.\<close>

definition inspect_paths :: "Module list \<Rightarrow> console" where
  "inspect_paths ms =
     ConsoleLog (if ms = [] then ''[]''
                 else ''[ '' @ join '', '' (map (\<lambda>m. [CHR 0x27] @ path_string (path m) @ [CHR 0x27]) ms) @ '' ]'')"

definition discoverSystemModules ::
    "node \<Rightarrow> file_order \<Rightarrow> dir_order \<Rightarrow> path list option \<Rightarrow> js_error + Module list \<times> console list" where
  "discoverSystemModules root order dir_order env_PATH =
     (case env_PATH of
        None \<Rightarrow> Inl undefined_split
      | Some paths \<Rightarrow>
          (case fold (\<lambda>p (modules, out).
                   (case discoverModules root order p system of
                      (foundModules, out') \<Rightarrow> (fold push_unless_named foundModules modules, out @ out')))
                 (dir_order paths) ([], []) of
             (modules, out) \<Rightarrow>
               Inr (modules, out @ [inspect_paths modules, found_line modules ''system''])))"

subsection \<open>class Manager\<close>

text \<open>The constructor assigns \<open>to_autostart\<close>; \<open>modules\<close> stays undefined until \<open>init\<close>.\<close>

record Manager =
  modules :: "Module list option"
  to_autostart :: "string list"

definition Manager_new :: "string list \<Rightarrow> Manager" where
  "Manager_new autostart = \<lparr>modules = None, to_autostart = autostart\<rparr>"

text \<open>The world a Manager runs in: everything its methods ask of Node.\<close>

record world =
  root :: node
  static :: path
  env_PATH :: "path list option"
  TESTING :: bool
  spawn :: spawner
  file_order :: file_order
  dir_order :: dir_order
  late_landing :: "nat list"
  settle_choice :: "nat list"

definition init_twice :: console where
  "init_twice = ConsoleError ''Manager.init() can only be called once. Remove extra call.''"

text \<open>
  \<open>init\<close> builds the registry only after the scan of PATH: \<open>[...modulesBundled,
  ...modulesSystem]\<close>. Callbacks of the bundle scan that were pending when it returned and
  complete while PATH is scanned have pushed onto \<open>modulesBundled\<close> by then, although
  the count printed for the bundle was taken before. \<open>late_landing\<close> has one number for
  each of them, in completion order: how many further lines of the PATH scan are printed
  before it lands. The last two lines of \<open>discoverSystemModules\<close> are printed in the turn
  in which \<open>init\<close> resumes, so nothing lands after them.
\<close>

definition Manager_init :: "world \<Rightarrow> Manager \<Rightarrow> js_error + Manager \<times> console list" where
  "Manager_init w mgr =
     (case modules mgr of
        Some ms \<Rightarrow> Inr (mgr, [init_twice])
      | None \<Rightarrow>
          (case discoverBundledModules (root w) (file_order w) (static w) of
             (modulesBundled, out_b) \<Rightarrow>
               (case discoverSystemModules (root w) (file_order w) (dir_order w) (env_PATH w) of
                  Inl e \<Rightarrow> Inl e
                | Inr (modulesSystem, out_s) \<Rightarrow>
                    (let landed = take (length (late_landing w))
                                    (discoverBundledModules_pending (root w) (file_order w) (static w));
                         scanning = length out_s - 2
                     in Inr (mgr\<lparr>modules := Some (modulesBundled @ concat (map fst landed) @ modulesSystem)\<rparr>,
                             [ConsoleLog ''Searching for modules in bundle''] @ out_b
                             @ [ConsoleLog ''Searching for modules in PATH'']
                             @ weave (late_landing w) (map snd landed) (take scanning out_s)
                             @ drop scanning out_s)))))"

text \<open>
  The lookup of \<open>Manager.start\<close>. Modules are objects and \<open>start()\<close> changes the one
  found, so the model finds its position in \<open>this.modules\<close>:
  \<open>this.modules.filter(m => m.type == 'bundled').find(m => m.name == name) ||
   this.modules.find(m => m.name == name)\<close>.
\<close>

definition find_module :: "Module list \<Rightarrow> string \<Rightarrow> nat option" where
  "find_module ms n =
     (let indexed = enumerate 0 ms in
      case List.find (\<lambda>(i, m). name m = n) (filter (\<lambda>(i, m). type m = bundled) indexed) of
        Some (i, m) \<Rightarrow> Some i
      | None \<Rightarrow>
          (case List.find (\<lambda>(i, m). name m = n) indexed of
             Some (i, m) \<Rightarrow> Some i
           | None \<Rightarrow> None))"

definition undefined_filter :: js_error where
  "undefined_filter = TypeError ''Cannot read properties of undefined (reading filter)''"

definition Manager_start :: "world \<Rightarrow> Manager \<Rightarrow> string \<Rightarrow> js_error + Manager \<times> console list" where
  "Manager_start w mgr n =
     (case modules mgr of
        None \<Rightarrow> Inl undefined_filter
      | Some ms \<Rightarrow>
          (case find_module ms n of
             Some i \<Rightarrow>
               (case Module_start (TESTING w) (spawn w) (ms ! i) of
                  (m', out) \<Rightarrow> Inr (mgr\<lparr>modules := Some (ms[i := m'])\<rparr>, out))
           | None \<Rightarrow>
               Inr (mgr, [ConsoleError (''Module '' @ n @ '' could not be started'')])))"

subsection \<open>\<open>Manager.autostart\<close> and its promises\<close>

text \<open>
  \<open>autostart\<close> is the one method whose behaviour lies in how promises settle, so its
  model runs the event loop. The state of the loop holds the Manager, the console, the
  promises that are pending, and what \<open>autostart\<close> still has to do once it is resumed.
  The events record when a call of \<open>this.start\<close> is issued and when the promise of its
  callback settles.
\<close>

datatype event = Issued string | Settled string


record loop =
  manager :: Manager
  printed :: "console list"
  events :: "event list"
  pending :: "(string \<times> js_error option) list"
  failed :: "js_error option"
  todo :: "string list list"



text \<open>
  The pending promise at position \<open>k\<close> settles. \<open>Promise.all\<close> rejects with the first
  rejection among its promises: the \<open>await\<close> in \<open>autostart\<close> then throws, \<open>autostart\<close>
  rejects, and nothing of it is left to do. The other promises settle all the same.
\<close>

definition settle :: "nat \<Rightarrow> loop \<Rightarrow> loop" where
  "settle k r =
     (case pending r ! k of
        (n, outcome) \<Rightarrow>
          (let r' = r\<lparr>events := events r @ [Settled n],
                      pending := take k (pending r) @ drop (Suc k) (pending r)\<rparr>
           in case outcome of
                None \<Rightarrow> r'
              | Some e \<Rightarrow> if failed r = None then r'\<lparr>failed := Some e, todo := []\<rparr> else r'))"















subsection \<open>Notions used in the properties of discovery\<close>

text \<open>
  The callback of \<open>discoverModules\<close> for one file name, acting on the rejection seen so
  far, the array and the console, and what follows the \<open>Promise.all\<close>: the body of
  \<open>scan\<close>, named.
\<close>

definition entry_step ::
    "file_order \<Rightarrow> path \<Rightarrow> (string \<times> node) list \<Rightarrow> ModuleType \<Rightarrow> string
       \<Rightarrow> errcode option \<times> Module list \<times> console list \<Rightarrow> errcode option \<times> Module list \<times> console list" where
  "entry_step order dir es t =
     (\<lambda>file (rejected, ms, out).
                if rejected \<noteq> None then (rejected, ms, out)
                else (case map_of es file of
                    None \<Rightarrow> (Some ENOENT, ms, out)
                  | Some child \<Rightarrow>
                      (case stat child of
                         Inl e \<Rightarrow> (Some e, ms, out)
                       | Inr IsFile \<Rightarrow>
                           if access_X_OK child
                           then (None, ms @ [Module_new file (path_join dir file) t],
                                 out @ [ConsoleLog (''Found module '' @ file)])
                           else (None, ms, out)
                       | Inr IsDirectory \<Rightarrow>
                           (case scan order (path_join dir file) child t of
                              (ms', out') \<Rightarrow> (None, ms @ ms', out @ out'))
                       | Inr IsOther \<Rightarrow>
                           (None, ms, out @ [ConsoleWarn ''Not a file, and not a dir?'']))))"

definition after_all :: "errcode option \<times> Module list \<times> console list \<Rightarrow> Module list \<times> console list" where
  "after_all r = (case r of (None, ms, out) \<Rightarrow> (ms, out) | (Some e, ms, out) \<Rightarrow> catch_block e ms out)"

text \<open>The same for \<open>scan_pending\<close>: what one callback adds to the list.\<close>

definition pending_step ::
    "file_order \<Rightarrow> path \<Rightarrow> (string \<times> node) list \<Rightarrow> ModuleType \<Rightarrow> string
       \<Rightarrow> errcode option \<times> (Module list \<times> console list) list
       \<Rightarrow> errcode option \<times> (Module list \<times> console list) list" where
  "pending_step order dir es t =
     (\<lambda>file (rejected, late).
                if rejected = None
                then (case map_of es file of
                    None \<Rightarrow> (Some ENOENT, late)
                  | Some child \<Rightarrow>
                      (case stat child of
                         Inl e \<Rightarrow> (Some e, late)
                       | Inr k \<Rightarrow> (None, late)))
                else (case map_of es file of
                    None \<Rightarrow> (rejected, late)
                  | Some child \<Rightarrow>
                      (case stat child of
                         Inl e \<Rightarrow> (rejected, late)
                       | Inr IsFile \<Rightarrow>
                           if access_X_OK child
                           then (rejected,
                                 late @ [([Module_new file (path_join dir file) t],
                                          [ConsoleLog (''Found module '' @ file)])])
                           else (rejected, late)
                       | Inr IsDirectory \<Rightarrow>
                           (rejected, late @ [scan order (path_join dir file) child t])
                       | Inr IsOther \<Rightarrow>
                           (rejected, late @ [([], [ConsoleWarn ''Not a file, and not a dir?''])]))))"

text \<open>
  A module as a scan of \<open>dir\<close> for \<open>type\<close> \<open>t\<close> creates it: its path leads to a regular
  file that the process may execute, strictly below \<open>dir\<close>; its name is the last component
  of the path and passes the filter; it has no process.
\<close>

definition found_in :: "node \<Rightarrow> path \<Rightarrow> ModuleType \<Rightarrow> Module \<Rightarrow> bool" where
  "found_in r dir t m \<longleftrightarrow>
     resolve r (path m) = Inr (File True) \<and> file_match (name m) \<and> type m = t
     \<and> process m = None \<and> strict_prefix dir (path m) \<and> last (path m) = name m"

text \<open>
  A listing in which \<open>stat\<close> succeeds on every name that passes the filter.
\<close>

definition statable :: "(string \<times> node) list \<Rightarrow> bool" where
  "statable es =
     list_all (\<lambda>f. case map_of es f of Some (Broken e) \<Rightarrow> False | _ \<Rightarrow> True)
       (filter file_match (map fst es))"

subsection \<open>A small installation\<close>

text \<open>
  The application ships \<open>aw-server\<close> in its bundle; \<open>/usr/bin\<close> has \<open>aw-server\<close> and
  \<open>aw-watcher-window\<close>, \<open>/opt/bin\<close> has another \<open>aw-server\<close>. PATH is
  \<open>/usr/bin:/opt/bin\<close>. Callbacks complete in the order in which they were started.
\<close>

definition example_root :: node where
  "example_root =
     Dir [(''app'', Dir [(''static'', Dir []),
                         (''modules'', Dir [(''aw-server'', File True)])]),
          (''usr'', Dir [(''bin'', Dir [(''ls'', File True),
                                        (''aw-server'', File True),
                                        (''aw-watcher-window'', File True)])]),
          (''opt'', Dir [(''bin'', Dir [(''aw-server'', File True)])])]"

definition example_world :: world where
  "example_world =
     \<lparr>root = example_root, static = [''app'', ''static''],
      env_PATH = Some [[''usr'', ''bin''], [''opt'', ''bin'']],
      TESTING = False, spawn = (\<lambda>p args. Spawned (length p)),
      file_order = (\<lambda>dir files. files), dir_order = (\<lambda>ps. ps),
      late_landing = [],
      settle_choice = []\<rparr>"

text \<open>
  A bundle in which \<open>stat\<close> fails on one entry for lack of permission, with nothing on
  PATH: the callback of \<open>aw-server\<close> is still pending when the scan returns, and lands
  before the registry is built.
\<close>

definition late_world :: world where
  "late_world =
     \<lparr>root = Dir [(''app'', Dir [(''static'', Dir []),
                                 (''modules'', Dir [(''aw-watcher-locked'', Broken EACCES),
                                                    (''aw-server'', File True)])]),
                  (''usr'', Dir [(''bin'', Dir [])])],
      static = [''app'', ''static''], env_PATH = Some [[''usr'', ''bin'']],
      TESTING = False, spawn = (\<lambda>p args. Spawned (length p)),
      file_order = (\<lambda>dir files. files), dir_order = (\<lambda>ps. ps),
      late_landing = [0],
      settle_choice = []\<rparr>"

definition example_modules :: "Module list" where
  "example_modules =
     [Module_new ''aw-server'' [''usr'', ''bin'', ''aw-server''] system,
      Module_new ''aw-server'' [''app'', ''modules'', ''aw-server''] bundled,
      Module_new ''aw-watcher-window'' [''usr'', ''bin'', ''aw-watcher-window''] system]"

text \<open>
  What it is for \<open>Manager.start\<close> to start the module at position \<open>i\<close> of the registry:
  \<open>Module.start\<close> runs on that module, and the others are left as they are.
\<close>

definition starts_at :: "world \<Rightarrow> Manager \<Rightarrow> Module list \<Rightarrow> nat \<Rightarrow> js_error + Manager \<times> console list" where
  "starts_at w mgr ms i =
     Inr (mgr\<lparr>modules := Some (ms[i := fst (Module_start (TESTING w) (spawn w) (ms ! i))])\<rparr>,
          snd (Module_start (TESTING w) (spawn w) (ms ! i)))"

section \<open>Properties of class Module\<close>

lemma step_keeps_handle:
  assumes "step T a m = Inr (m', out)" and "process m \<noteq> None"
  shows "process m' \<noteq> None"
  using assms
  by (cases a)
     (auto simp: Module_start_def Module_stop_def Module_toggle_def Module_on_close_def
        Module_running_def Let_def split: spawn_result.splits if_splits option.splits sum.splits)

lemma step_first_handle:
  assumes "step T a m = Inr (m', out)" and "process m = None"
  shows "process m' \<noteq> None \<longleftrightarrow> attaches a"
  using assms
  by (cases a)
     (auto simp: Module_start_def Module_stop_def Module_toggle_def Module_on_close_def
        Module_running_def Let_def attaches_def returns_handle_def
        split: spawn_result.splits if_splits option.splits sum.splits)

lemma run_handle:
  "run T acts m = Inr (m', out) \<Longrightarrow>
   process m' \<noteq> None \<longleftrightarrow> process m \<noteq> None \<or> (\<exists>a \<in> set acts. attaches a)"
proof (induction acts arbitrary: m out)
  case Nil
  then show ?case by simp
next
  case (Cons a acts)
  from Cons.prems obtain m1 out1 out2 where
    s: "step T a m = Inr (m1, out1)" and r: "run T acts m1 = Inr (m', out2)"
    by (auto split: sum.splits)
  have ih: "process m' \<noteq> None \<longleftrightarrow> process m1 \<noteq> None \<or> (\<exists>a \<in> set acts. attaches a)"
    by (rule Cons.IH [OF r])
  show ?case
  proof (cases "process m")
    case None
    with step_first_handle [OF s] ih show ?thesis by auto
  next
    case (Some p)
    with step_keeps_handle [OF s] ih show ?thesis by auto
  qed
qed

lemma running_with_handle:
  assumes "process m = Some p"
  shows "Module_running m = Inr (signalCode p = None)"
  using assms by (simp add: Module_running_def)

text \<open>
  C6, on the code. \<open>stop()\<close> on a Module that has never been started does not warn: it
  calls \<open>running()\<close>, which reads a field of the undefined \<open>process\<close> and throws.
\<close>

theorem stop_never_started_throws:
  "Module_stop (Module_new n p t) = Inl undefined_signalCode"
  by (simp add: Module_stop_def Module_running_def Module_new_def)

text \<open>
  C4, as stated, fails: the handle is assigned by \<open>start()\<close> and nothing ever clears it.
  After start, stop and the exit notification for the SIGTERM that \<open>stop()\<close> sent, the
  handle is still there and \<open>running()\<close> is false.
\<close>

theorem handle_iff_running_counterexample:
  "run False [Start (Spawned 1), Stop, Exit (ExitSignal ''SIGTERM'')]
       (Module_new ''aw-server'' [''opt'', ''aw-server''] bundled)
     = Inr (\<lparr>name = ''aw-server'', path = [''opt'', ''aw-server''],
              process = Some \<lparr>pid = 1, killed = True, exited = Some (ExitSignal ''SIGTERM'')\<rparr>,
              type = bundled\<rparr>,
            [ConsoleLog ''Starting aw-server'',
             ConsoleLog ''Module aw-server exited with code null''])
   \<and> Module_running \<lparr>name = ''aw-server'', path = [''opt'', ''aw-server''],
              process = Some \<lparr>pid = 1, killed = True, exited = Some (ExitSignal ''SIGTERM'')\<rparr>,
              type = bundled\<rparr> = Inr False"
  by (simp add: Module_new_def Module_start_def Module_stop_def Module_on_close_def
      Module_running_def signalCode_def kill_def new_child_def show_code_def)

text \<open>
  C4, amended. Through every history of calls and exit notifications that does not throw,
  the handle is present exactly when it was present before or some \<open>start()\<close> of the
  history had \<open>spawn\<close> return a process object: it is attached then and never cleared, also
  not when the process exits. \<open>running()\<close> can be true only with a handle; with a handle it
  is true while no exit has been reported, and false once the process has been reported
  as terminated by a signal.
\<close>

theorem handle_attached_never_cleared:
  assumes "run T acts m = Inr (m', out)"
  shows "(process m' \<noteq> None \<longleftrightarrow> process m \<noteq> None \<or> (\<exists>a \<in> set acts. attaches a))
       \<and> (Module_running m' = Inr True \<longrightarrow> process m' \<noteq> None)
       \<and> (\<forall>p. process m' = Some p \<longrightarrow>
              (exited p = None \<longrightarrow> Module_running m' = Inr True)
            \<and> (\<forall>s. exited p = Some (ExitSignal s) \<longrightarrow> Module_running m' = Inr False))"
proof (intro conjI allI impI)
  show "process m' \<noteq> None \<longleftrightarrow> process m \<noteq> None \<or> (\<exists>a \<in> set acts. attaches a)"
    by (rule run_handle [OF assms])
next
  assume "Module_running m' = Inr True"
  then show "process m' \<noteq> None"
    by (auto simp: Module_running_def split: option.splits)
next
  fix p assume "process m' = Some p" and "exited p = None"
  then show "Module_running m' = Inr True"
    by (simp add: running_with_handle signalCode_def)
next
  fix p s assume "process m' = Some p" and "exited p = Some (ExitSignal s)"
  then show "Module_running m' = Inr False"
    by (simp add: running_with_handle signalCode_def)
qed

theorem handle_attached_never_cleared_witness:
  "process (fst (Module_start False (\<lambda>_ _. Spawned 7) (Module_new ''aw-server'' [''opt'', ''aw-server''] bundled)))
     = Some (new_child 7)
   \<and> Module_running (fst (Module_start False (\<lambda>_ _. Spawned 7)
        (Module_new ''aw-server'' [''opt'', ''aw-server''] bundled))) = Inr True"
proof -
  let ?m = "Module_new ''aw-server'' [''opt'', ''aw-server''] bundled"
  let ?m' = "fst (Module_start False (\<lambda>_ _. Spawned 7) ?m)"
  have r: "run False [Start (Spawned 7)] ?m = Inr (?m', snd (Module_start False (\<lambda>_ _. Spawned 7) ?m))"
    by simp
  have p: "process ?m' = Some (new_child 7)"
    by (simp add: Module_start_def Module_new_def)
  have e: "exited (new_child 7) = None"
    by (simp add: new_child_def)
  from handle_attached_never_cleared [OF r] p e show ?thesis
    by blast
qed

text \<open>
  C5, on the code. A Module that has never been started and whose \<open>spawn\<close> throws:
  \<open>start()\<close> reports the error and leaves \<open>process\<close> undefined, and \<open>running()\<close> then
  throws instead of answering false. A failure that Node reports through the \<open>'error'\<close>
  event is not reported by \<open>start()\<close> at all: the handle is attached and \<open>running()\<close>
  answers true.
\<close>

theorem start_spawn_failure_running:
  "Module_start False (\<lambda>_ _. SpawnThrows e) (Module_new n p t)
     = (Module_new n p t,
        [ConsoleLog (''Starting '' @ n), ConsoleError (''ERROR '' @ n @ '': '' @ e)])
   \<and> Module_running (fst (Module_start False (\<lambda>_ _. SpawnThrows e) (Module_new n p t)))
     = Inl undefined_signalCode
   \<and> snd (Module_start False (\<lambda>_ _. SpawnedErrorLater i e) (Module_new n p t))
     = [ConsoleLog (''Starting '' @ n)]
   \<and> Module_running (fst (Module_start False (\<lambda>_ _. SpawnedErrorLater i e) (Module_new n p t)))
     = Inr True"
  by (simp add: Module_start_def Module_new_def Module_running_def signalCode_def new_child_def)

text \<open>
  C9, on the code. \<open>toggle()\<close> on a Module that has never been started does not start
  it: \<open>running()\<close> throws before either branch is taken, whatever \<open>spawn\<close> would do.
\<close>

theorem toggle_never_started_throws:
  "Module_toggle T sp (Module_new n p t) = Inl undefined_signalCode"
  by (simp add: Module_toggle_def Module_running_def Module_new_def)

section \<open>Properties of class Manager\<close>

lemma find_filter: "List.find P (filter Q xs) = List.find (\<lambda>x. Q x \<and> P x) xs"
  by (induction xs) auto

lemma find_enumerate_Some:
  assumes "List.find (\<lambda>(i, m). P m) (enumerate 0 ms) = Some (i, m)"
  shows "i < length ms \<and> m = ms ! i \<and> P (ms ! i) \<and> (\<forall>j<i. \<not> P (ms ! j))"
  using assms by (auto simp: find_Some_iff nth_enumerate_eq)

lemma find_enumerate_None:
  "List.find (\<lambda>(i, m). P m) (enumerate k ms) = None \<longleftrightarrow> (\<forall>m \<in> set ms. \<not> P m)"
  by (induction ms arbitrary: k) auto

lemma find_bundled_filter:
  "List.find (\<lambda>(i, m). name m = n) (filter (\<lambda>(i, m). type m = bundled) (enumerate 0 ms))
     = List.find (\<lambda>(i, m). type m = bundled \<and> name m = n) (enumerate 0 ms)"
  by (simp add: find_filter case_prod_unfold)

lemma find_module_bundled:
  assumes "\<exists>m \<in> set ms. type m = bundled \<and> name m = n"
  shows "\<exists>i<length ms. find_module ms n = Some i \<and> type (ms ! i) = bundled \<and> name (ms ! i) = n
           \<and> (\<forall>j<i. \<not> (type (ms ! j) = bundled \<and> name (ms ! j) = n))"
proof -
  let ?P = "\<lambda>m. type m = bundled \<and> name m = n"
  from assms have "List.find (\<lambda>(i, m). ?P m) (enumerate 0 ms) \<noteq> None"
    by (simp add: find_enumerate_None)
  then obtain i m where f: "List.find (\<lambda>(i, m). ?P m) (enumerate 0 ms) = Some (i, m)"
    by auto
  from find_enumerate_Some [of ?P, OF f] f find_bundled_filter [of n ms] show ?thesis
    by (auto simp: find_module_def)
qed

lemma find_module_system:
  assumes "\<forall>m \<in> set ms. type m = bundled \<longrightarrow> name m \<noteq> n" and "\<exists>m \<in> set ms. name m = n"
  shows "\<exists>i<length ms. find_module ms n = Some i \<and> type (ms ! i) = system \<and> name (ms ! i) = n
           \<and> (\<forall>j<i. name (ms ! j) \<noteq> n)"
proof -
  let ?P = "\<lambda>m. type m = bundled \<and> name m = n"
  from assms(1) have none: "List.find (\<lambda>(i, m). ?P m) (enumerate 0 ms) = None"
    by (auto simp: find_enumerate_None)
  from assms(2) have "List.find (\<lambda>(i, m). name m = n) (enumerate 0 ms) \<noteq> None"
    by (simp add: find_enumerate_None)
  then obtain i m where f: "List.find (\<lambda>(i, m). name m = n) (enumerate 0 ms) = Some (i, m)"
    by auto
  from find_enumerate_Some [of "\<lambda>m. name m = n", OF f]
  have i: "i < length ms" "name (ms ! i) = n" "\<forall>j<i. name (ms ! j) \<noteq> n"
    by auto
  with assms(1) have "type (ms ! i) \<noteq> bundled"
    using nth_mem [of i ms] by blast
  then have "type (ms ! i) = system"
    by (cases "type (ms ! i)") auto
  with i f none find_bundled_filter [of n ms] show ?thesis
    by (auto simp: find_module_def)
qed

lemma find_module_none:
  assumes "\<forall>m \<in> set ms. name m \<noteq> n"
  shows "find_module ms n = None"
proof -
  from assms have "List.find (\<lambda>(i, m). type m = bundled \<and> name m = n) (enumerate 0 ms) = None"
    and "List.find (\<lambda>(i, m). name m = n) (enumerate 0 ms) = None"
    by (auto simp: find_enumerate_None)
  with find_bundled_filter [of n ms] show ?thesis
    by (simp add: find_module_def)
qed

lemma Manager_start_found:
  assumes "modules mgr = Some ms" and "find_module ms n = Some i"
  shows "Manager_start w mgr n = starts_at w mgr ms i"
  using assms by (simp add: Manager_start_def starts_at_def split: prod.splits)

text \<open>
  C2. \<open>Manager.start(name)\<close> starts the first bundled module of that name if there is
  one, wherever system modules of that name stand in the registry; otherwise the first
  module of that name, which is a system module; and if no module has that name it
  starts nothing and prints that the module could not be started.
\<close>

theorem start_prefers_bundled:
  assumes "modules mgr = Some ms"
  shows "((\<exists>m \<in> set ms. type m = bundled \<and> name m = n) \<longrightarrow>
            (\<exists>i<length ms. type (ms ! i) = bundled \<and> name (ms ! i) = n
               \<and> (\<forall>j<i. \<not> (type (ms ! j) = bundled \<and> name (ms ! j) = n))
               \<and> Manager_start w mgr n = starts_at w mgr ms i))
       \<and> ((\<forall>m \<in> set ms. type m = bundled \<longrightarrow> name m \<noteq> n) \<and> (\<exists>m \<in> set ms. name m = n) \<longrightarrow>
            (\<exists>i<length ms. type (ms ! i) = system \<and> name (ms ! i) = n
               \<and> (\<forall>j<i. name (ms ! j) \<noteq> n)
               \<and> Manager_start w mgr n = starts_at w mgr ms i))
       \<and> ((\<forall>m \<in> set ms. name m \<noteq> n) \<longrightarrow>
            Manager_start w mgr n
              = Inr (mgr, [ConsoleError (''Module '' @ n @ '' could not be started'')]))"
proof (intro conjI impI)
  assume "\<exists>m \<in> set ms. type m = bundled \<and> name m = n"
  from find_module_bundled [OF this] obtain i where
    "i < length ms" "find_module ms n = Some i" "type (ms ! i) = bundled" "name (ms ! i) = n"
    "\<forall>j<i. \<not> (type (ms ! j) = bundled \<and> name (ms ! j) = n)"
    by blast
  with Manager_start_found [OF assms, of n i w]
  show "\<exists>i<length ms. type (ms ! i) = bundled \<and> name (ms ! i) = n
          \<and> (\<forall>j<i. \<not> (type (ms ! j) = bundled \<and> name (ms ! j) = n))
          \<and> Manager_start w mgr n = starts_at w mgr ms i"
    by blast
next
  assume "(\<forall>m \<in> set ms. type m = bundled \<longrightarrow> name m \<noteq> n) \<and> (\<exists>m \<in> set ms. name m = n)"
  then have "\<forall>m \<in> set ms. type m = bundled \<longrightarrow> name m \<noteq> n" and "\<exists>m \<in> set ms. name m = n"
    by blast+
  from find_module_system [OF this] obtain i where
    "i < length ms" "find_module ms n = Some i" "type (ms ! i) = system" "name (ms ! i) = n"
    "\<forall>j<i. name (ms ! j) \<noteq> n"
    by blast
  with Manager_start_found [OF assms, of n i w]
  show "\<exists>i<length ms. type (ms ! i) = system \<and> name (ms ! i) = n
          \<and> (\<forall>j<i. name (ms ! j) \<noteq> n)
          \<and> Manager_start w mgr n = starts_at w mgr ms i"
    by blast
next
  assume "\<forall>m \<in> set ms. name m \<noteq> n"
  from find_module_none [OF this] assms
  show "Manager_start w mgr n
          = Inr (mgr, [ConsoleError (''Module '' @ n @ '' could not be started'')])"
    by (simp add: Manager_start_def)
qed

text \<open>
  In the registry \<open>example_modules\<close> the system \<open>aw-server\<close> stands before the bundled
  one: \<open>start\<close> takes the bundled one, at position 1. \<open>aw-watcher-window\<close> exists only as
  a system module, and \<open>aw-qt\<close> not at all.
\<close>

theorem start_prefers_bundled_witness:
  "Manager_start example_world \<lparr>modules = Some example_modules, to_autostart = []\<rparr> ''aw-server''
     = starts_at example_world \<lparr>modules = Some example_modules, to_autostart = []\<rparr> example_modules 1
   \<and> Manager_start example_world \<lparr>modules = Some example_modules, to_autostart = []\<rparr> ''aw-watcher-window''
     = starts_at example_world \<lparr>modules = Some example_modules, to_autostart = []\<rparr> example_modules 2
   \<and> Manager_start example_world \<lparr>modules = Some example_modules, to_autostart = []\<rparr> ''aw-qt''
     = Inr (\<lparr>modules = Some example_modules, to_autostart = []\<rparr>,
            [ConsoleError ''Module aw-qt could not be started''])"
proof -
  let ?mgr = "\<lparr>modules = Some example_modules, to_autostart = []\<rparr>"
  have m: "modules ?mgr = Some example_modules"
    by simp
  have len: "length example_modules = 3"
    by (simp add: example_modules_def)
  have nth: "type (example_modules ! 0) = system" "name (example_modules ! 0) = ''aw-server''"
    "type (example_modules ! 1) = bundled" "name (example_modules ! 1) = ''aw-server''"
    "type (example_modules ! 2) = system" "name (example_modules ! 2) = ''aw-watcher-window''"
    by (simp_all add: example_modules_def Module_new_def)
  have h1: "\<exists>m \<in> set example_modules. type m = bundled \<and> name m = ''aw-server''"
    by (simp add: example_modules_def Module_new_def)
  have h2: "(\<forall>m \<in> set example_modules. type m = bundled \<longrightarrow> name m \<noteq> ''aw-watcher-window'')
      \<and> (\<exists>m \<in> set example_modules. name m = ''aw-watcher-window'')"
    by (simp add: example_modules_def Module_new_def)
  have h3: "\<forall>m \<in> set example_modules. name m \<noteq> ''aw-qt''"
    by (simp add: example_modules_def Module_new_def)
  from start_prefers_bundled [OF m, of "''aw-server''" example_world] h1 obtain i where
    i: "i < 3" "type (example_modules ! i) = bundled"
    "Manager_start example_world ?mgr ''aw-server'' = starts_at example_world ?mgr example_modules i"
    unfolding len by blast
  from i(1) have "i = 0 \<or> i = 1 \<or> i = 2"
    by arith
  with i(2) nth have "i = 1"
    by auto
  with i(3) have c1: "Manager_start example_world ?mgr ''aw-server''
      = starts_at example_world ?mgr example_modules 1"
    by simp
  from start_prefers_bundled [OF m, of "''aw-watcher-window''" example_world] h2 obtain k where
    k: "k < 3" "name (example_modules ! k) = ''aw-watcher-window''"
    "Manager_start example_world ?mgr ''aw-watcher-window'' = starts_at example_world ?mgr example_modules k"
    unfolding len by blast
  from k(1) have "k = 0 \<or> k = 1 \<or> k = 2"
    by arith
  with k(2) nth have "k = 2"
    by auto
  with k(3) have c2: "Manager_start example_world ?mgr ''aw-watcher-window''
      = starts_at example_world ?mgr example_modules 2"
    by simp
  from start_prefers_bundled [OF m, of "''aw-qt''" example_world] h3
  have c3: "Manager_start example_world ?mgr ''aw-qt''
      = Inr (?mgr, [ConsoleError ''Module aw-qt could not be started''])"
    by simp
  from c1 c2 c3 show ?thesis
    by blast
qed

text \<open>
  C10. Once an \<open>init\<close> has completed, \<open>modules\<close> is set, and every later \<open>init\<close>, in
  whatever world, prints an error to \<open>console.error\<close>, returns, and leaves the Manager,
  its registry included, as it was.
\<close>

theorem init_only_once:
  assumes "Manager_init w mgr = Inr (mgr1, out)"
  shows "modules mgr1 \<noteq> None \<and> Manager_init w' mgr1 = Inr (mgr1, [init_twice])"
proof -
  from assms have "modules mgr1 \<noteq> None"
    by (auto simp: Manager_init_def Let_def split: option.splits prod.splits sum.splits)
  then show ?thesis
    by (auto simp: Manager_init_def)
qed

theorem init_only_once_witness:
  "modules (fst (projr (Manager_init example_world (Manager_new [''aw-server''])))) 
     = Some [Module_new ''aw-server'' [''app'', ''modules'', ''aw-server''] bundled,
             Module_new ''aw-server'' [''usr'', ''bin'', ''aw-server''] system,
             Module_new ''aw-watcher-window'' [''usr'', ''bin'', ''aw-watcher-window''] system]
   \<and> Manager_init (example_world\<lparr>env_PATH := None\<rparr>)
        (fst (projr (Manager_init example_world (Manager_new [''aw-server'']))))
     = Inr (fst (projr (Manager_init example_world (Manager_new [''aw-server'']))), [init_twice])"
proof -
  have isr: "isl (Manager_init example_world (Manager_new [''aw-server''])) = False"
    by code_simp
  then have r: "Manager_init example_world (Manager_new [''aw-server''])
      = Inr (fst (projr (Manager_init example_world (Manager_new [''aw-server'']))),
             snd (projr (Manager_init example_world (Manager_new [''aw-server'']))))"
    by (cases "Manager_init example_world (Manager_new [''aw-server''])") auto
  have v: "modules (fst (projr (Manager_init example_world (Manager_new [''aw-server'']))))
     = Some [Module_new ''aw-server'' [''app'', ''modules'', ''aw-server''] bundled,
             Module_new ''aw-server'' [''usr'', ''bin'', ''aw-server''] system,
             Module_new ''aw-watcher-window'' [''usr'', ''bin'', ''aw-watcher-window''] system]"
    by code_simp
  from init_only_once [OF r, of "example_world\<lparr>env_PATH := None\<rparr>"] v show ?thesis
    by blast
qed






lemma settle_rejected:
  assumes "snd (pending r ! k) = Some e"
  shows "todo (settle k r) = [] \<or> failed r \<noteq> None" and "failed (settle k r) \<noteq> None"
  using assms by (auto simp: settle_def Let_def split: prod.splits option.splits)

lemma settle_failed_kept:
  "failed r \<noteq> None \<Longrightarrow> failed (settle k r) = failed r \<and> todo (settle k r) = todo r"
  by (auto simp: settle_def Let_def split: prod.splits option.splits)






















section \<open>Properties of discovery\<close>

lemma scan_Dir:
  "scan order dir (Dir es) t =
     after_all (fold (entry_step order dir es t) (order dir (filter file_match (map fst es))) (None, [], []))"
  by (simp add: entry_step_def after_all_def)

lemma fold_invariant:
  assumes "P s" and "\<And>x s. x \<in> set xs \<Longrightarrow> P s \<Longrightarrow> P (f x s)"
  shows "P (fold f xs s)"
  using assms by (induction xs arbitrary: s) auto

lemma resolve_append:
  "resolve r p = Inr n \<Longrightarrow> resolve r (p @ q) = resolve n q"
proof (induction r p rule: resolve.induct)
  case (3 es c cs)
  then show ?case by (auto split: option.splits)
qed auto

lemma resolve_child:
  assumes "resolve r dir = Inr (Dir es)" and "map_of es file = Some child" and "stat child = Inr k"
  shows "resolve r (path_join dir file) = Inr child"
proof -
  from assms(3) have "resolve child [] = Inr child"
    by (cases child) auto
  with assms(2) resolve_append [OF assms(1), of "[file]"] show ?thesis
    by (simp add: path_join_def)
qed

lemma found_in_up:
  assumes "found_in r (path_join dir file) t m"
  shows "found_in r dir t m"
proof -
  have "strict_prefix dir (path_join dir file)"
    by (simp add: path_join_def strict_prefix_def)
  with assms show ?thesis
    unfolding found_in_def using prefix_order.less_trans by blast
qed

lemma after_all_subset: "set (fst (after_all s)) \<subseteq> set (fst (snd s))"
  by (auto simp: after_all_def catch_block_def split: prod.splits option.splits if_splits)

lemma entry_step_sound:
  assumes res: "resolve r dir = Inr (Dir es)"
    and fm: "file_match file"
    and ih: "\<And>child. map_of es file = Some child \<Longrightarrow> stat child = Inr IsDirectory \<Longrightarrow>
               \<forall>m \<in> set (fst (scan order (path_join dir file) child t)). found_in r (path_join dir file) t m"
    and inv: "\<forall>m \<in> set (fst (snd s)). found_in r dir t m"
  shows "\<forall>m \<in> set (fst (snd (entry_step order dir es t file s))). found_in r dir t m"
proof (cases s)
  case (fields rejected ms out)
  show ?thesis
  proof (cases "rejected = None")
    case False
    with fields inv show ?thesis by (simp add: entry_step_def)
  next
    case True
    note nr = this
    show ?thesis
    proof (cases "map_of es file")
      case None
      with fields nr inv show ?thesis by (simp add: entry_step_def)
    next
      case (Some child)
      show ?thesis
      proof (cases "stat child")
        case (Inl e)
        with fields nr Some inv show ?thesis by (simp add: entry_step_def)
      next
        case (Inr k)
        note st = this
        have rc: "resolve r (path_join dir file) = Inr child"
          by (rule resolve_child [OF res Some st])
        show ?thesis
        proof (cases k)
          case IsFile
          show ?thesis
          proof (cases "access_X_OK child")
            case True
            with st IsFile have "child = File True"
              by (cases child) auto
            with rc fm have "found_in r dir t (Module_new file (path_join dir file) t)"
              by (simp add: found_in_def Module_new_def path_join_def strict_prefix_def)
            with fields nr Some st IsFile True inv show ?thesis
              by (simp add: entry_step_def)
          next
            case False
            with fields nr Some st IsFile inv show ?thesis
              by (simp add: entry_step_def)
          qed
        next
          case IsDirectory
          with ih [OF Some] st
          have "\<forall>m \<in> set (fst (scan order (path_join dir file) child t)). found_in r dir t m"
            using found_in_up by blast
          with fields nr Some st IsDirectory inv show ?thesis
            by (auto simp: entry_step_def split: prod.splits)
        next
          case IsOther
          with fields nr Some st inv show ?thesis
            by (simp add: entry_step_def)
        qed
      qed
    qed
  qed
qed

lemma scan_sound:
  "\<forall>d fs. mset (order d fs) = mset fs \<Longrightarrow> resolve r dir = Inr n \<Longrightarrow>
   \<forall>m \<in> set (fst (scan order dir n t)). found_in r dir t m"
proof (induction order dir n t rule: scan.induct)
  case (1 order dir es t)
  let ?files = "filter file_match (map fst es)"
  note wf = "1.prems"(1) and res = "1.prems"(2)
  from wf have "mset (order dir ?files) = mset ?files"
    by blast
  then have so: "set (order dir ?files) = set ?files"
    by (rule mset_eq_setD)
  have "\<forall>m \<in> set (fst (snd (fold (entry_step order dir es t) (order dir ?files) (None, [], [])))).
          found_in r dir t m"
  proof (rule fold_invariant [where P = "\<lambda>s. \<forall>m \<in> set (fst (snd s)). found_in r dir t m"])
    show "\<forall>m \<in> set (fst (snd (None :: errcode option, [] :: Module list, [] :: console list))). found_in r dir t m"
      by simp
  next
    fix fl and s :: "errcode option \<times> Module list \<times> console list"
    assume f: "fl \<in> set (order dir ?files)"
      and inv: "\<forall>m \<in> set (fst (snd s)). found_in r dir t m"
    from f so have fm: "file_match fl"
      by auto
    show "\<forall>m \<in> set (fst (snd (entry_step order dir es t fl s))). found_in r dir t m"
    proof (rule entry_step_sound [OF res fm _ inv])
      fix child
      assume c: "map_of es fl = Some child" "stat child = Inr IsDirectory"
      have "resolve r (path_join dir fl) = Inr child"
        by (rule resolve_child [OF res c])
      from "1.IH" [OF refl f _ c(1) c(2) refl wf this]
      show "\<forall>m \<in> set (fst (scan order (path_join dir fl) child t)). found_in r (path_join dir fl) t m"
        by simp
    qed
  qed
  with after_all_subset show ?case
    unfolding scan_Dir by blast
qed (simp_all add: catch_block_def)


lemma push_names:
  "name ` set (fold push_unless_named fs ms) = name ` set ms \<union> name ` set fs"
  by (induction fs arbitrary: ms) (auto simp: push_unless_named_def)

lemma push_distinct:
  "distinct (map name ms) \<Longrightarrow> distinct (map name (fold push_unless_named fs ms))"
  by (induction fs arbitrary: ms) (auto simp: push_unless_named_def)

lemma push_keeps: "set ms \<subseteq> set (fold push_unless_named fs ms)"
proof (induction fs arbitrary: ms)
  case (Cons f fs)
  have "set ms \<subseteq> set (push_unless_named f ms)"
    by (auto simp: push_unless_named_def)
  with Cons [of "push_unless_named f ms"] show ?case by auto
qed simp

lemma push_subset: "set (fold push_unless_named fs ms) \<subseteq> set ms \<union> set fs"
proof (induction fs arbitrary: ms)
  case (Cons f fs)
  have "set (push_unless_named f ms) \<subseteq> set ms \<union> {f}"
    by (auto simp: push_unless_named_def)
  with Cons [of "push_unless_named f ms"] show ?case by auto
qed simp

lemma distinct_names_unique:
  assumes "distinct (map name ms)" and "a \<in> set ms" and "b \<in> set ms" and "name a = name b"
  shows "a = b"
  using assms by (meson distinct_map inj_onD)

lemma one_of_name:
  assumes "distinct (map name ms)" and "X \<in> name ` set ms"
  shows "length (filter (\<lambda>m. name m = X) ms) = 1"
proof -
  have "length (filter (\<lambda>m. name m = X) ms) = length (filter (\<lambda>n. n = X) (map name ms))"
    by (simp add: filter_map comp_def)
  also have "\<dots> = count_list (map name ms) X"
    by (induction ms) auto
  also from assms have "\<dots> = 1"
    by (induction ms) (auto simp: count_list_0_iff)
  finally show ?thesis .
qed

lemma entry_step_ok:
  assumes "map_of es f = Some c" and "stat c = Inr k"
  shows "\<exists>ms' out'. entry_step order dir es t f (None, ms, out) = (None, ms', out')
           \<and> set ms \<subseteq> set ms' \<and> (c = File True \<longrightarrow> f \<in> name ` set ms')"
  using assms
  by (cases k; cases c)
     (auto simp: entry_step_def Module_new_def split: prod.splits)

lemma fold_entry_step_ok:
  assumes "\<forall>f \<in> set fs. \<exists>c k. map_of es f = Some c \<and> stat c = Inr k"
  shows "\<exists>ms' out'. fold (entry_step order dir es t) fs (None, ms, out) = (None, ms', out')
           \<and> set ms \<subseteq> set ms' \<and> (\<forall>f \<in> set fs. map_of es f = Some (File True) \<longrightarrow> f \<in> name ` set ms')"
  using assms
proof (induction fs arbitrary: ms out)
  case Nil
  then show ?case by simp
next
  case (Cons f fs)
  from Cons.prems obtain c k where c: "map_of es f = Some c" "stat c = Inr k"
    by auto
  from entry_step_ok [OF c, of order dir t ms out] obtain ms1 out1 where
    s: "entry_step order dir es t f (None, ms, out) = (None, ms1, out1)" "set ms \<subseteq> set ms1"
    "c = File True \<longrightarrow> f \<in> name ` set ms1"
    by blast
  from Cons.prems have "\<forall>f \<in> set fs. \<exists>c k. map_of es f = Some c \<and> stat c = Inr k"
    by simp
  from Cons.IH [OF this, of ms1 out1] obtain ms2 out2 where
    r: "fold (entry_step order dir es t) fs (None, ms1, out1) = (None, ms2, out2)" "set ms1 \<subseteq> set ms2"
    "\<forall>f \<in> set fs. map_of es f = Some (File True) \<longrightarrow> f \<in> name ` set ms2"
    by blast
  from s r c show ?case
    by auto
qed

lemma statable_stat:
  assumes "statable es" and "file_match f" and "map_of es f = Some c"
  shows "\<exists>k. stat c = Inr k"
proof -
  from assms(3) have "f \<in> fst ` set es"
    by (metis map_of_eq_None_iff option.distinct(1))
  with assms(1,2) have "case map_of es f of Some (Broken e) \<Rightarrow> False | _ \<Rightarrow> True"
    by (auto simp: statable_def list_all_iff)
  with assms(3) show ?thesis
    by (cases c) auto
qed

lemma scan_finds:
  assumes wf: "\<forall>d fs. mset (order d fs) = mset fs"
    and x: "map_of es X = Some (File True)" and fm: "file_match X" and st: "statable es"
  shows "X \<in> name ` set (fst (scan order dir (Dir es) t))"
proof -
  let ?files = "filter file_match (map fst es)"
  from wf have "mset (order dir ?files) = mset ?files"
    by blast
  then have so: "set (order dir ?files) = set ?files"
    by (rule mset_eq_setD)
  have ok: "\<forall>f \<in> set (order dir ?files). \<exists>c k. map_of es f = Some c \<and> stat c = Inr k"
  proof
    fix f assume "f \<in> set (order dir ?files)"
    with so have f: "f \<in> fst ` set es" "file_match f"
      by auto
    then obtain c where "map_of es f = Some c"
      by (metis map_of_eq_None_iff not_Some_eq)
    with statable_stat [OF st f(2)] show "\<exists>c k. map_of es f = Some c \<and> stat c = Inr k"
      by blast
  qed
  from x have "X \<in> fst ` set es"
    by (metis map_of_eq_None_iff option.distinct(1))
  with fm so have xin: "X \<in> set (order dir ?files)"
    by auto
  from fold_entry_step_ok [OF ok, of order dir t "[]" "[]"] obtain ms' out' where
    "fold (entry_step order dir es t) (order dir ?files) (None, [], []) = (None, ms', out')"
    "\<forall>f \<in> set (order dir ?files). map_of es f = Some (File True) \<longrightarrow> f \<in> name ` set ms'"
    by blast
  with xin x show ?thesis
    by (simp add: scan_Dir after_all_def del: scan.simps)
qed

lemma two_in_some_order:
  assumes "mset xs = mset [a, b]"
  shows "xs = [a, b] \<or> xs = [b, a]"
proof -
  from assms have "length xs = 2"
    by (metis length_Cons list.size(3) mset_eq_length numeral_2_eq_2)
  then obtain x y where xs: "xs = [x, y]"
    by (metis (no_types, opaque_lifting) Suc_length_conv length_0_conv numeral_2_eq_2)
  with assms show ?thesis
    by (auto simp: add_eq_conv_ex)
qed


lemma discoverModules_sound:
  assumes "\<forall>d fs. mset (order d fs) = mset fs"
  shows "\<forall>m \<in> set (fst (discoverModules r order dir t)). found_in r dir t m"
proof (cases "resolve r dir")
  case (Inl e)
  then show ?thesis
    by (simp add: discoverModules_def catch_block_def)
next
  case (Inr n)
  with scan_sound [OF assms Inr, of t] show ?thesis
    by (simp add: discoverModules_def)
qed

lemma system_sound:
  assumes wf: "\<forall>d fs. mset (order d fs) = mset fs"
    and r: "discoverSystemModules r order dord P = Inr (ms, out)"
  shows "\<forall>m \<in> set ms. \<exists>d. found_in r d system m"
proof -
  from r obtain paths where P: "P = Some paths"
    by (cases P) (auto simp: discoverSystemModules_def)
  let ?step = "\<lambda>p (modules, out).
                   (case discoverModules r order p system of
                      (foundModules, out') \<Rightarrow> (fold push_unless_named foundModules modules, out @ out'))"
  have "\<forall>m \<in> set (fst (fold ?step (dord paths) ([], []))). \<exists>d. found_in r d system m"
  proof (rule fold_invariant [where P = "\<lambda>s. \<forall>m \<in> set (fst s). \<exists>d. found_in r d system m"])
    show "\<forall>m \<in> set (fst ([] :: Module list, [] :: console list)). \<exists>d. found_in r d system m"
      by simp
  next
    fix p and s :: "Module list \<times> console list"
    assume inv: "\<forall>m \<in> set (fst s). \<exists>d. found_in r d system m"
    have "set (fst (?step p s))
        \<subseteq> set (fst s) \<union> set (fst (discoverModules r order p system))"
      using push_subset [of "fst (discoverModules r order p system)" "fst s"]
      by (simp add: case_prod_unfold)
    with inv discoverModules_sound [OF wf, of r p system]
    show "\<forall>m \<in> set (fst (?step p s)). \<exists>d. found_in r d system m"
      by blast
  qed
  with r P show ?thesis
    by (auto simp: discoverSystemModules_def split: prod.splits)
qed

lemma bundled_sound:
  assumes "\<forall>d fs. mset (order d fs) = mset fs"
  shows "\<forall>m \<in> set (fst (discoverBundledModules r order st)). \<exists>d. found_in r d bundled m"
  using discoverModules_sound [OF assms, of r "path_join (butlast st) ''modules''" bundled]
  by (auto simp: discoverBundledModules_def split: prod.splits)

lemma scan_pending_Dir:
  "scan_pending order dir (Dir es) t =
     (case fold (pending_step order dir es t) (order dir (filter file_match (map fst es))) (None, []) of
        (None, late) \<Rightarrow> []
      | (Some e, late) \<Rightarrow> if e = ENOENT then [] else late)"
  by (simp add: pending_step_def)

lemma pending_step_sound:
  assumes wf: "\<forall>d fs. mset (order d fs) = mset fs"
    and res: "resolve r dir = Inr (Dir es)"
    and fm: "file_match f"
    and inv: "\<forall>c \<in> set (snd s). \<forall>m \<in> set (fst c). found_in r dir t m"
  shows "\<forall>c \<in> set (snd (pending_step order dir es t f s)). \<forall>m \<in> set (fst c). found_in r dir t m"
proof (cases s)
  case (Pair rejected late)
  show ?thesis
  proof (cases "map_of es f")
    case None
    with Pair inv show ?thesis by (simp add: pending_step_def)
  next
    case (Some child)
    show ?thesis
    proof (cases "stat child")
      case (Inl e)
      with Pair Some inv show ?thesis by (simp add: pending_step_def)
    next
      case (Inr k)
      have rc: "resolve r (path_join dir f) = Inr child"
        by (rule resolve_child [OF res Some Inr])
      show ?thesis
      proof (cases k)
        case IsFile
        show ?thesis
        proof (cases "access_X_OK child")
          case True
          with Inr IsFile have "child = File True"
            by (cases child) auto
          with rc fm have "found_in r dir t (Module_new f (path_join dir f) t)"
            by (simp add: found_in_def Module_new_def path_join_def strict_prefix_def)
          with Pair Some Inr IsFile True inv show ?thesis
            by (auto simp: pending_step_def)
        next
          case False
          with Pair Some Inr IsFile inv show ?thesis
            by (simp add: pending_step_def)
        qed
      next
        case IsDirectory
        from scan_sound [OF wf rc, of t]
        have "\<forall>m \<in> set (fst (scan order (path_join dir f) child t)). found_in r dir t m"
          using found_in_up by blast
        with Pair Some Inr IsDirectory inv show ?thesis
          by (auto simp: pending_step_def)
      next
        case IsOther
        with Pair Some Inr inv show ?thesis
          by (auto simp: pending_step_def)
      qed
    qed
  qed
qed

lemma scan_pending_sound:
  assumes wf: "\<forall>d fs. mset (order d fs) = mset fs" and res: "resolve r dir = Inr n"
  shows "\<forall>c \<in> set (scan_pending order dir n t). \<forall>m \<in> set (fst c). found_in r dir t m"
proof (cases n)
  case (Dir es)
  let ?files = "filter file_match (map fst es)"
  from wf have "mset (order dir ?files) = mset ?files"
    by blast
  then have so: "set (order dir ?files) = set ?files"
    by (rule mset_eq_setD)
  have "\<forall>c \<in> set (snd (fold (pending_step order dir es t) (order dir ?files) (None, []))).
          \<forall>m \<in> set (fst c). found_in r dir t m"
  proof (rule fold_invariant [where P = "\<lambda>s. \<forall>c \<in> set (snd s). \<forall>m \<in> set (fst c). found_in r dir t m"])
    show "\<forall>c \<in> set (snd (None :: errcode option, [] :: (Module list \<times> console list) list)).
            \<forall>m \<in> set (fst c). found_in r dir t m"
      by simp
  next
    fix f and s :: "errcode option \<times> (Module list \<times> console list) list"
    assume f: "f \<in> set (order dir ?files)"
      and inv: "\<forall>c \<in> set (snd s). \<forall>m \<in> set (fst c). found_in r dir t m"
    from f so have fm: "file_match f"
      by auto
    from res Dir have "resolve r dir = Inr (Dir es)"
      by simp
    from pending_step_sound [OF wf this fm inv]
    show "\<forall>c \<in> set (snd (pending_step order dir es t f s)). \<forall>m \<in> set (fst c). found_in r dir t m" .
  qed
  moreover have "set (scan_pending order dir (Dir es) t)
      \<subseteq> set (snd (fold (pending_step order dir es t) (order dir ?files) (None, [])))"
    by (cases "fold (pending_step order dir es t) (order dir ?files) (None, [])")
       (auto simp: scan_pending_Dir simp del: scan_pending.simps split: option.splits)
  ultimately show ?thesis
    unfolding Dir by blast
qed simp_all

lemma bundled_pending_sound:
  assumes "\<forall>d fs. mset (order d fs) = mset fs"
  shows "\<forall>c \<in> set (discoverBundledModules_pending r order st). \<forall>m \<in> set (fst c). \<exists>d. found_in r d bundled m"
proof (cases "resolve r (path_join (butlast st) ''modules'')")
  case (Inl e)
  then show ?thesis
    by (simp add: discoverBundledModules_pending_def discoverModules_pending_def)
next
  case (Inr n)
  with scan_pending_sound [OF assms Inr, of bundled] show ?thesis
    by (auto simp: discoverBundledModules_pending_def discoverModules_pending_def)
qed

lemma init_sound:
  assumes wf: "\<forall>d fs. mset (file_order w d fs) = mset fs"
    and "modules mgr = None" and "Manager_init w mgr = Inr (mgr', out)" and "modules mgr' = Some ms"
  shows "\<forall>m \<in> set ms. \<exists>d t. found_in (root w) d t m"
proof -
  let ?landed = "take (length (late_landing w))
      (discoverBundledModules_pending (root w) (file_order w) (static w))"
  from assms(2,3,4) obtain mb ob msys os where
    b: "discoverBundledModules (root w) (file_order w) (static w) = (mb, ob)"
    and s: "discoverSystemModules (root w) (file_order w) (dir_order w) (env_PATH w) = Inr (msys, os)"
    and ms: "ms = mb @ concat (map fst ?landed) @ msys"
    by (auto simp: Manager_init_def Let_def split: prod.splits sum.splits)
  from bundled_sound [OF wf, of "root w" "static w"] b
  have 1: "\<forall>m \<in> set mb. \<exists>d t. found_in (root w) d t m"
    by simp blast
  note bp = bundled_pending_sound [OF wf, of "root w" "static w"]
  have 2: "\<forall>m \<in> set (concat (map fst ?landed)). \<exists>d t. found_in (root w) d t m"
  proof
    fix m assume "m \<in> set (concat (map fst ?landed))"
    then obtain c where c: "c \<in> set ?landed" "m \<in> set (fst c)"
      by auto
    from c(1) have "c \<in> set (discoverBundledModules_pending (root w) (file_order w) (static w))"
      by (rule in_set_takeD)
    with c(2) bp show "\<exists>d t. found_in (root w) d t m"
      by blast
  qed
  from system_sound [OF wf s]
  have 3: "\<forall>m \<in> set msys. \<exists>d t. found_in (root w) d t m"
    by blast
  from 1 2 3 ms show ?thesis
    by auto
qed

text \<open>
  In \<open>late_world\<close> the bundle scan prints the error and \<open>Found 0 modules in bundle\<close>,
  and the registry that \<open>init\<close> builds holds the bundled \<open>aw-server\<close> all the same.
\<close>

lemma init_late_push:
  "Manager_init late_world (Manager_new [])
     = Inr (\<lparr>modules = Some [Module_new ''aw-server'' [''app'', ''modules'', ''aw-server''] bundled],
             to_autostart = []\<rparr>,
            [ConsoleLog ''Searching for modules in bundle'',
             ConsoleError ''Could not list the directory due to unexpected error: EACCES'',
             ConsoleLog ''Found 0 modules in bundle: '',
             ConsoleLog ''Searching for modules in PATH'',
             ConsoleLog ''Found module aw-server'',
             ConsoleLog ''[]'',
             ConsoleLog ''Found 0 modules in system: ''])"
  by code_simp

text \<open>
  C7, as stated, fails in its last part: the filter is an unanchored regular expression, so
  a file whose name merely contains \<open>aw-watcher\<close> is returned as a module although its
  name has neither prefix.
\<close>

theorem name_prefix_counterexample:
  "discoverModules (Dir [(''bin'', Dir [(''test-aw-watcher.sh'', File True)])]) (\<lambda>d fs. fs) [''bin''] system
     = ([Module_new ''test-aw-watcher.sh'' [''bin'', ''test-aw-watcher.sh''] system],
        [ConsoleLog ''Found module test-aw-watcher.sh''])
   \<and> \<not> prefix ''aw-server'' ''test-aw-watcher.sh''
   \<and> \<not> prefix ''aw-watcher'' ''test-aw-watcher.sh''"
  by code_simp

text \<open>
  C7, amended. Whatever the order in which the callbacks of a directory complete, every
  module that \<open>discoverModules\<close> returns, and every module of the registry that \<open>init\<close>
  builds, has a path that leads to a regular file with execute permission, and a name,
  the last component of that path, that contains \<open>aw-server\<close> or \<open>aw-watcher\<close>.
\<close>

theorem discovered_modules_are_executables:
  assumes "\<forall>d fs. mset (file_order w d fs) = mset fs"
  shows "(\<forall>m \<in> set (fst (discoverModules (root w) (file_order w) dir t)).
            resolve (root w) (path m) = Inr (File True)
          \<and> (str_includes (name m) ''aw-server'' \<or> str_includes (name m) ''aw-watcher'')
          \<and> last (path m) = name m \<and> strict_prefix dir (path m))
       \<and> (\<forall>mgr' out ms. modules mgr = None \<and> Manager_init w mgr = Inr (mgr', out) \<and> modules mgr' = Some ms \<longrightarrow>
            (\<forall>m \<in> set ms.
               resolve (root w) (path m) = Inr (File True)
             \<and> (str_includes (name m) ''aw-server'' \<or> str_includes (name m) ''aw-watcher'')
             \<and> last (path m) = name m))"
proof (intro conjI allI impI)
  from discoverModules_sound [OF assms, of "root w" dir t]
  show "\<forall>m \<in> set (fst (discoverModules (root w) (file_order w) dir t)).
            resolve (root w) (path m) = Inr (File True)
          \<and> (str_includes (name m) ''aw-server'' \<or> str_includes (name m) ''aw-watcher'')
          \<and> last (path m) = name m \<and> strict_prefix dir (path m)"
    by (simp add: found_in_def file_match_def)
next
  fix mgr' out ms
  assume "modules mgr = None \<and> Manager_init w mgr = Inr (mgr', out) \<and> modules mgr' = Some ms"
  then have "\<forall>m \<in> set ms. \<exists>d t. found_in (root w) d t m"
    using init_sound [OF assms] by blast
  then show "\<forall>m \<in> set ms.
               resolve (root w) (path m) = Inr (File True)
             \<and> (str_includes (name m) ''aw-server'' \<or> str_includes (name m) ''aw-watcher'')
             \<and> last (path m) = name m"
    by (auto simp: found_in_def file_match_def)
qed

theorem discovered_modules_are_executables_witness:
  "Module_new ''aw-watcher-window'' [''usr'', ''bin'', ''aw-watcher-window''] system
     \<in> set (fst (discoverModules (root example_world) (file_order example_world) [''usr'', ''bin''] system))
   \<and> resolve (root example_world) [''usr'', ''bin'', ''aw-watcher-window''] = Inr (File True)
   \<and> str_includes ''aw-watcher-window'' ''aw-watcher''"
proof -
  let ?m = "Module_new ''aw-watcher-window'' [''usr'', ''bin'', ''aw-watcher-window''] system"
  have wf: "\<forall>d fs. mset (file_order example_world d fs) = mset fs"
    by (simp add: example_world_def)
  have m: "?m \<in> set (fst (discoverModules (root example_world) (file_order example_world) [''usr'', ''bin''] system))"
    by code_simp
  have n: "name ?m = ''aw-watcher-window''" "path ?m = [''usr'', ''bin'', ''aw-watcher-window'']"
    by (simp_all add: Module_new_def)
  have s: "\<not> str_includes ''aw-watcher-window'' ''aw-server''"
    by code_simp
  from discovered_modules_are_executables [OF wf, of "[''usr'', ''bin'']" system] m
  have "resolve (root example_world) (path ?m) = Inr (File True)
      \<and> (str_includes (name ?m) ''aw-server'' \<or> str_includes (name ?m) ''aw-watcher'')"
    by blast
  with m n s show ?thesis
    by simp
qed

lemma system_two:
  assumes "dord ps = [da, db]"
  shows "\<exists>out. discoverSystemModules r order dord (Some ps)
           = Inr (fold push_unless_named (fst (discoverModules r order db system))
                    (fold push_unless_named (fst (discoverModules r order da system)) []), out)"
  using assms by (auto simp: discoverSystemModules_def split: prod.splits)

lemma merge_two:
  assumes x: "X \<in> name ` set fa" and q: "\<forall>m \<in> set fa. Q m"
  shows "length (filter (\<lambda>m. name m = X) (fold push_unless_named fb (fold push_unless_named fa []))) = 1
       \<and> (\<forall>m \<in> set (fold push_unless_named fb (fold push_unless_named fa [])). name m = X \<longrightarrow> Q m)"
proof -
  let ?a = "fold push_unless_named fa []"
  let ?ms = "fold push_unless_named fb ?a"
  have da: "distinct (map name ?a)"
    by (rule push_distinct) simp
  then have d: "distinct (map name ?ms)"
    by (rule push_distinct)
  from x have "X \<in> name ` set ?a"
    by (simp add: push_names)
  then obtain m0 where m0: "m0 \<in> set ?a" "name m0 = X"
    by auto
  with push_subset [of fa "[]"] have "m0 \<in> set fa"
    by auto
  with q have q0: "Q m0"
    by blast
  from m0 push_keeps [of ?a fb] have in0: "m0 \<in> set ?ms"
    by auto
  have "Q m" if "m \<in> set ?ms" "name m = X" for m
    using distinct_names_unique [OF d that(1) in0] that(2) m0(2) q0 by simp
  moreover from in0 m0(2) have "X \<in> name ` set ?ms"
    by auto
  ultimately show ?thesis
    using one_of_name [OF d] by blast
qed

lemma scan_of_listed:
  assumes wf: "\<forall>d fs. mset (order d fs) = mset fs"
    and "resolve r d = Inr (Dir es)" and "map_of es X = Some (File True)" and "statable es"
    and "file_match X"
  shows "X \<in> name ` set (fst (discoverModules r order d system))"
    and "\<forall>m \<in> set (fst (discoverModules r order d system)). type m = system \<and> strict_prefix d (path m)"
proof -
  from assms(2) have eq: "discoverModules r order d system = scan order d (Dir es) system"
    by (simp add: discoverModules_def del: scan.simps)
  from scan_finds [OF wf assms(3) assms(5) assms(4), of d system] eq
  show "X \<in> name ` set (fst (discoverModules r order d system))"
    by simp
  from discoverModules_sound [OF wf, of r d system]
  show "\<forall>m \<in> set (fst (discoverModules r order d system)). type m = system \<and> strict_prefix d (path m)"
    by (simp add: found_in_def)
qed

text \<open>
  C1, as stated, fails: the merge runs in the order in which the scans complete. With
  PATH \<open>/usr/bin:/opt/bin\<close>, both holding an executable \<open>aw-server\<close>, and the scan of
  \<open>/opt/bin\<close> completing first, the one system module \<open>aw-server\<close> is the one of
  \<open>/opt/bin\<close>.
\<close>

theorem path_order_counterexample:
  "resolve example_root [''usr'', ''bin'', ''aw-server''] = Inr (File True)
   \<and> resolve example_root [''opt'', ''bin'', ''aw-server''] = Inr (File True)
   \<and> file_match ''aw-server''
   \<and> map_sum id fst (discoverSystemModules example_root (\<lambda>d fs. fs) rev
         (Some [[''usr'', ''bin''], [''opt'', ''bin'']]))
     = Inr [Module_new ''aw-server'' [''opt'', ''bin'', ''aw-server''] system,
            Module_new ''aw-watcher-window'' [''usr'', ''bin'', ''aw-watcher-window''] system]"
  by code_simp

text \<open>
  C1, amended. Let the two directories of PATH each list an executable regular file \<open>X\<close>
  that passes the filter, and let \<open>stat\<close> succeed on every entry of theirs that passes
  it. Then, whatever the order in which callbacks complete, system discovery returns
  exactly one module named \<open>X\<close>; it is a system module, and its path lies under the
  directory whose scan completed first: under \<open>d1\<close> when the scans complete in the order
  of PATH, under \<open>d2\<close> when the scan of \<open>d2\<close> overtakes.
\<close>

theorem first_completed_scan_wins:
  assumes wf: "\<forall>d fs. mset (order d fs) = mset fs"
    and perm: "mset (dord [d1, d2]) = mset [d1, d2]"
    and d1: "resolve r d1 = Inr (Dir es1)" "map_of es1 X = Some (File True)" "statable es1"
    and d2: "resolve r d2 = Inr (Dir es2)" "map_of es2 X = Some (File True)" "statable es2"
    and fm: "file_match X"
  shows "\<exists>ms out. discoverSystemModules r order dord (Some [d1, d2]) = Inr (ms, out)
      \<and> length (filter (\<lambda>m. name m = X) ms) = 1
      \<and> (\<forall>m \<in> set ms. name m = X \<longrightarrow>
            type m = system \<and> strict_prefix (hd (dord [d1, d2])) (path m))"
proof -
  note s1 = scan_of_listed [OF wf d1 fm] and s2 = scan_of_listed [OF wf d2 fm]
  from two_in_some_order [OF perm] show ?thesis
  proof
    assume o: "dord [d1, d2] = [d1, d2]"
    from system_two [of dord "[d1, d2]" d1 d2 r order, OF o]
      merge_two [OF s1, of "fst (discoverModules r order d2 system)"] o
    show ?thesis
      by auto
  next
    assume o: "dord [d1, d2] = [d2, d1]"
    from system_two [of dord "[d1, d2]" d2 d1 r order, OF o]
      merge_two [OF s2, of "fst (discoverModules r order d1 system)"] o
    show ?thesis
      by auto
  qed
qed


theorem first_completed_scan_wins_witness:
  "\<exists>ms out. discoverSystemModules example_root (\<lambda>d fs. fs) rev
                (Some [[''usr'', ''bin''], [''opt'', ''bin'']]) = Inr (ms, out)
      \<and> length (filter (\<lambda>m. name m = ''aw-server'') ms) = 1
      \<and> (\<forall>m \<in> set ms. name m = ''aw-server'' \<longrightarrow>
            type m = system \<and> strict_prefix [''opt'', ''bin''] (path m))"
proof -
  let ?es1 = "[(''ls'', File True), (''aw-server'', File True), (''aw-watcher-window'', File True)]"
  let ?es2 = "[(''aw-server'', File True)]"
  have wf: "\<forall>d fs. mset ((\<lambda>d fs. fs) d fs) = mset (fs :: string list)"
    by simp
  have perm: "mset (rev [[''usr'', ''bin''], [''opt'', ''bin'']]) = mset [[''usr'', ''bin''], [''opt'', ''bin'']]"
    by simp
  have d1: "resolve example_root [''usr'', ''bin''] = Inr (Dir ?es1)"
    "map_of ?es1 ''aw-server'' = Some (File True)" "statable ?es1"
    by code_simp+
  have d2: "resolve example_root [''opt'', ''bin''] = Inr (Dir ?es2)"
    "map_of ?es2 ''aw-server'' = Some (File True)" "statable ?es2"
    by code_simp+
  have fm: "file_match ''aw-server''"
    by code_simp
  from first_completed_scan_wins [where order = "\<lambda>d fs. fs" and dord = rev, OF wf perm d1 d2 fm]
  show ?thesis
    by simp
qed

text \<open>
  C8. A directory that does not exist makes \<open>readdir\<close> fail with ENOENT, and the scan
  returns the empty array and prints nothing; for the bundle directory,
  \<open>discoverBundledModules\<close> returns the empty array and prints that it found 0 modules.
  Neither function can throw.
\<close>

theorem missing_directory_no_modules:
  assumes "resolve r dir = Inl ENOENT"
  shows "discoverModules r order dir t = ([], [])
       \<and> (dir = path_join (butlast st) ''modules'' \<longrightarrow>
            discoverBundledModules r order st = ([], [ConsoleLog ''Found 0 modules in bundle: '']))"
proof -
  have d: "discoverModules r order dir t' = ([], [])" for t'
    using assms by (simp add: discoverModules_def catch_block_def)
  have l: "found_line [] ''bundle'' = ConsoleLog ''Found 0 modules in bundle: ''"
    by (simp add: found_line_def show_nat.simps join_comma_def)
  have "discoverBundledModules r order st = ([], [ConsoleLog ''Found 0 modules in bundle: ''])"
    if "dir = path_join (butlast st) ''modules''"
    using d [of bundled] l unfolding that by (simp add: discoverBundledModules_def)
  with d show ?thesis by blast
qed

theorem missing_directory_no_modules_witness:
  "discoverModules example_root (\<lambda>d fs. fs) [''snap'', ''modules''] system = ([], [])
   \<and> discoverBundledModules example_root (\<lambda>d fs. fs) [''snap'', ''static'']
       = ([], [ConsoleLog ''Found 0 modules in bundle: ''])"
proof -
  have h: "resolve example_root [''snap'', ''modules''] = Inl ENOENT"
    by (simp add: example_root_def)
  have p: "[''snap'', ''modules''] = path_join (butlast [''snap'', ''static'']) ''modules''"
    by (simp add: path_join_def)
  from missing_directory_no_modules [OF h, of "\<lambda>d fs. fs" system "[''snap'', ''static'']"] p
  show ?thesis by blast
qed

end
